theory Spec2Isabelle
  imports Main
begin

section \<open>Python strings and the runtime tables the code relies on\<close>

text \<open>
  A Python \<open>str\<close> is a sequence of Unicode code points, and \<open>len\<close> counts code
  points. A character is modelled by its code point (\<open>ord\<close>), a string by the list of
  its characters. The Hangul syllable \<open>U+AC00\<close> is \<open>44032\<close> and \<open>U+D7A3\<close> is \<open>55203\<close>.
\<close>

type_synonym pychar = nat
type_synonym pystr = "pychar list"

text \<open>
  Exceptions are values. \<open>IndexError\<close> is what list indexing raises; \<open>External\<close> stands
  for any exception raised by a collaborator (the search client, the analyzer), with
  its message.
\<close>

datatype exn = IndexError | External string

text \<open>
  The code calls into the Python runtime for three character tables and for the
  iteration order of a \<open>set\<close>. None of them is part of the repository, so they are
  parameters of the model:
  \<^item> \<open>alpha\<close>: \<open>str.isalpha\<close> on one character (Unicode letters);
  \<^item> \<open>alnum\<close>: \<open>str.isalnum\<close> on one character (the regular expression engine's
    \<open>\w\<close> is this table plus the underscore);
  \<^item> \<open>space\<close>: \<open>str.isspace\<close> on one character (what \<open>strip()\<close> removes);
  \<^item> \<open>set_iter\<close>: the list \<open>list(set(xs))\<close> built from the list \<open>xs\<close>.
\<close>

record runtime =
  alpha :: "pychar \<Rightarrow> bool"
  alnum :: "pychar \<Rightarrow> bool"
  space :: "pychar \<Rightarrow> bool"
  set_iter :: "pystr list \<Rightarrow> pystr list"

text \<open>What Python guarantees of \<open>list(set(xs))\<close>: the elements of \<open>xs\<close>, each once.\<close>

definition set_iter_ok :: "runtime \<Rightarrow> bool" where
  "set_iter_ok rt = (\<forall>xs. distinct (set_iter rt xs) \<and> set (set_iter rt xs) = set xs)"

text \<open>The character class \<open>[a-zA-Z]\<close>.\<close>

definition ascii_letter :: "pychar \<Rightarrow> bool" where
  "ascii_letter c = ((97 \<le> c \<and> c \<le> 122) \<or> (65 \<le> c \<and> c \<le> 90))"

text \<open>On the ASCII range the Unicode letters are exactly \<open>A\<close>-\<open>Z\<close> and \<open>a\<close>-\<open>z\<close>.\<close>

definition alpha_ascii_ok :: "runtime \<Rightarrow> bool" where
  "alpha_ascii_ok rt = (\<forall>c. c < 128 \<longrightarrow> alpha rt c = ascii_letter c)"

text \<open>The character class \<open>[\<dots>-\<dots>]\<close> from \<open>U+AC00\<close> to \<open>U+D7A3\<close>, the Hangul syllables.\<close>

definition korean_syllable :: "pychar \<Rightarrow> bool" where
  "korean_syllable c = (44032 \<le> c \<and> c \<le> 55203)"

text \<open>\<open>str.isalpha()\<close>: at least one character, and every character a letter.\<close>

definition py_isalpha :: "runtime \<Rightarrow> pystr \<Rightarrow> bool" where
  "py_isalpha rt s = (s \<noteq> [] \<and> list_all (alpha rt) s)"

text \<open>\<open>str.isascii()\<close>: every character below \<open>U+0080\<close> (true of the empty string).\<close>

definition py_isascii :: "pystr \<Rightarrow> bool" where
  "py_isascii s = list_all (\<lambda>c. c < 128) s"

text \<open>
  \<open>str.lower()\<close>. Both call sites of the source apply it to strings of ASCII letters
  only (after \<open>isalpha() and isascii()\<close>, and on a match of \<open>[a-zA-Z]{2,}\<close>); there
  it maps \<open>A\<close>-\<open>Z\<close> to \<open>a\<close>-\<open>z\<close> and keeps the rest. Characters outside ASCII are left
  as they are by this model.
\<close>

definition lower_char :: "pychar \<Rightarrow> pychar" where
  "lower_char c = (if 65 \<le> c \<and> c \<le> 90 then c + 32 else c)"

definition py_lower :: "pystr \<Rightarrow> pystr" where
  "py_lower s = map lower_char s"

text \<open>\<open>str.strip()\<close>: leading and trailing whitespace removed.\<close>

definition py_strip :: "runtime \<Rightarrow> pystr \<Rightarrow> pystr" where
  "py_strip rt s = rev (dropWhile (space rt) (rev (dropWhile (space rt) s)))"

text \<open>
  List indexing \<open>xs[i]\<close>: a negative index counts from the end, an index out of range
  raises \<open>IndexError\<close>.
\<close>

definition py_getitem :: "'a list \<Rightarrow> int \<Rightarrow> exn + 'a" where
  "py_getitem xs i =
     (let n = int (length xs); j = (if i < 0 then i + n else i)
      in if 0 \<le> j \<and> j < n then Inr (xs ! nat j) else Inl IndexError)"

section \<open>KoreanChoseongExtractor\<close>

text \<open>
  \<open>choseong_list\<close> of \<open>extract_choseong\<close>: nineteen one-character strings, the Hangul
  Compatibility Jamo \<open>U+3131\<close>, \<open>U+3132\<close>, \<open>U+3134\<close>, \<dots>, \<open>U+314E\<close>.
\<close>

definition choseong_list :: "pystr list" where
  "choseong_list =
     [[0x3131], [0x3132], [0x3134], [0x3137], [0x3138], [0x3139], [0x3141], [0x3142],
      [0x3143], [0x3145], [0x3146], [0x3147], [0x3148], [0x3149], [0x314A], [0x314B],
      [0x314C], [0x314D], [0x314E]]"

text \<open>
  The loop \<open>for char in text\<close> of \<open>extract_choseong\<close>, with the string built so far.
  The comparison of one-character strings is the comparison of their code points.
\<close>

fun choseong_loop :: "pystr \<Rightarrow> pystr \<Rightarrow> exn + pystr" where
  "choseong_loop [] choseong = Inr choseong"
| "choseong_loop (char # text) choseong =
     (if 0xAC00 \<le> char \<and> char \<le> 0xD7A3 then
        (let unicode_val = int char in
         if 44032 \<le> unicode_val \<and> unicode_val \<le> 55203 then
           (let choseong_code = (unicode_val - 44032) div 588 in
            case py_getitem choseong_list choseong_code of
              Inl e \<Rightarrow> Inl e
            | Inr jamo \<Rightarrow> choseong_loop text (choseong @ jamo))
         else choseong_loop text (choseong @ [char]))
      else choseong_loop text (choseong @ [char]))"

definition extract_choseong :: "runtime \<Rightarrow> pystr \<Rightarrow> exn + pystr" where
  "extract_choseong rt text =
     (if text = [] then Inr []
      else if py_isalpha rt text \<and> py_isascii text then Inr (py_lower text)
      else choseong_loop text [])"

text \<open>\<open>is_korean_word\<close>: the pattern \<open>[\<dots>-\<dots>]\<close> of the Hangul syllables is found in the text.\<close>

definition is_korean_word :: "pystr \<Rightarrow> bool" where
  "is_korean_word text = (if text = [] then False else list_ex korean_syllable text)"

section \<open>KoreanMorphemeAnalyzer: the validators\<close>

text \<open>
  \<open>re.match(r'^[^\<dots>-\<dots>a-zA-Z]*$', word)\<close>: the whole word is made of characters that
  are neither Hangul syllables nor ASCII letters. \<open>$\<close> also matches just before a
  newline that ends the string.
\<close>

definition no_korean_no_latin :: "pychar \<Rightarrow> bool" where
  "no_korean_no_latin c = (\<not> korean_syllable c \<and> \<not> ascii_letter c)"

definition match_only_other :: "pystr \<Rightarrow> bool" where
  "match_only_other word =
     (list_all no_korean_no_latin word \<or>
      (word \<noteq> [] \<and> last word = 10 \<and> list_all no_korean_no_latin (butlast word)))"

definition is_valid_korean_word :: "pystr \<Rightarrow> bool" where
  "is_valid_korean_word word =
     (if word = [] \<or> length word < 2 then False
      else if \<not> list_ex korean_syllable word then False
      else if match_only_other word then False
      else True)"

definition is_valid_english_word :: "runtime \<Rightarrow> pystr \<Rightarrow> bool" where
  "is_valid_english_word rt word =
     (if word = [] \<or> length word < 2 then False
      else if \<not> py_isalpha rt word then False
      else if length word > 50 then False
      else True)"

section \<open>KoreanMorphemeAnalyzer: English words\<close>

text \<open>
  The pattern \<open>\b[a-zA-Z]{2,}\b\<close> of \<open>_extract_english_words\<close>. \<open>\w\<close> is a Unicode
  alphanumeric character or the underscore; \<open>\b\<close> holds between two positions when
  exactly one side is a \<open>\w\<close> character, the ends of the string counting as not \<open>\w\<close>.
\<close>

definition re_word :: "runtime \<Rightarrow> pychar option \<Rightarrow> bool" where
  "re_word rt x = (case x of None \<Rightarrow> False | Some c \<Rightarrow> alnum rt c \<or> c = 95)"

definition word_boundary :: "runtime \<Rightarrow> pychar option \<Rightarrow> pychar option \<Rightarrow> bool" where
  "word_boundary rt prev nxt = (re_word rt prev \<noteq> re_word rt nxt)"

definition char_at :: "pystr \<Rightarrow> nat \<Rightarrow> pychar option" where
  "char_at s k = (if k < length s then Some (s ! k) else None)"

text \<open>
  The greedy \<open>{2,}\<close> followed by \<open>\b\<close>: the engine takes the longest run of letters and
  gives characters back one at a time until \<open>\b\<close> holds at the end of the match, never
  going below two. \<open>match_end rt s k\<close> tries the lengths \<open>k\<close>, \<open>k - 1\<close>, \<dots>, \<open>2\<close> of a
  match that starts at the head of \<open>s\<close>.
\<close>

fun match_end :: "runtime \<Rightarrow> pystr \<Rightarrow> nat \<Rightarrow> nat option" where
  "match_end rt s 0 = None"
| "match_end rt s (Suc k) =
     (if Suc k < 2 then None
      else if word_boundary rt (char_at s k) (char_at s (Suc k)) then Some (Suc k)
      else match_end rt s k)"

text \<open>
  A match of the whole pattern at the head of \<open>s\<close>, where \<open>prev\<close> is the character
  in front of it (\<open>None\<close> at the start of the sentence): the length of the match.
\<close>

definition match_at :: "runtime \<Rightarrow> pychar option \<Rightarrow> pystr \<Rightarrow> nat option" where
  "match_at rt prev s =
     (if word_boundary rt prev (char_at s 0)
      then match_end rt s (length (takeWhile ascii_letter s))
      else None)"

text \<open>
  \<open>findall\<close>: scan from left to right; a match is recorded and the scan goes on at its
  end, otherwise it moves one character on. \<open>skip\<close> counts the characters of the
  last match that are still to be passed over.
\<close>

fun findall_from :: "runtime \<Rightarrow> pychar option \<Rightarrow> nat \<Rightarrow> pystr \<Rightarrow> pystr list" where
  "findall_from rt prev skip [] = []"
| "findall_from rt prev skip (c # s) =
     (if 0 < skip then findall_from rt (Some c) (skip - 1) s
      else case match_at rt prev (c # s) of
             None \<Rightarrow> findall_from rt (Some c) 0 s
           | Some k \<Rightarrow> take k (c # s) # findall_from rt (Some c) (k - 1) s)"

definition findall_english :: "runtime \<Rightarrow> pystr \<Rightarrow> pystr list" where
  "findall_english rt sentence = findall_from rt None 0 sentence"

text \<open>The loop of \<open>_extract_english_words\<close> over the matches.\<close>

fun english_loop :: "runtime \<Rightarrow> pystr list \<Rightarrow> pystr list" where
  "english_loop rt [] = []"
| "english_loop rt (w # english_words) =
     (if is_valid_english_word rt w then py_lower w # english_loop rt english_words
      else english_loop rt english_words)"

definition extract_english_words :: "runtime \<Rightarrow> pystr \<Rightarrow> pystr list" where
  "extract_english_words rt sentence = english_loop rt (findall_english rt sentence)"

section \<open>KoreanMorphemeAnalyzer: Korean words and the sentence\<close>

text \<open>
  The analyzer object: the type it was asked for, and the tagger of the konlpy backend,
  a collaborator. \<open>pos an True s\<close> is the call \<open>pos(s, norm=True, stem=True)\<close>,
  \<open>pos an False s\<close> the call \<open>pos(s)\<close>; the tagger returns pairs of a surface form and
  a tag, or raises.
\<close>

type_synonym morphs = "(pystr \<times> string) list"

record analyzer =
  analyzer_type :: string
  pos :: "bool \<Rightarrow> pystr \<Rightarrow> exn + morphs"

text \<open>The log: each call of \<open>logger.info\<close>, \<open>logger.warning\<close>, \<open>logger.error\<close>, in order.\<close>

datatype level = INFO | WARNING | ERROR

datatype message =
    AnalysisFailed exn
  | SentenceFailed exn
  | ScrollFailed exn
  | ExtractionSummary nat nat
  | ExtractionFailed exn
  | NoWordsToIndex
  | BulkHadErrors
  | BulkItemError string
  | BulkIndexed nat
  | IndexingFailed exn
  | Extracting string
  | Indexing string
  | Completed
  | NoWordsToProcess
  | ProcessFailed exn

type_synonym log_entry = "level \<times> message"

text \<open>\<open>pos_filter is None or pos in pos_filter\<close>.\<close>

definition passes_filter :: "string list option \<Rightarrow> string \<Rightarrow> bool" where
  "passes_filter pos_filter tag =
     (case pos_filter of None \<Rightarrow> True | Some tags \<Rightarrow> tag \<in> set tags)"

fun korean_loop :: "string list option \<Rightarrow> morphs \<Rightarrow> pystr list" where
  "korean_loop pos_filter [] = []"
| "korean_loop pos_filter ((w, tag) # ms) =
     (if passes_filter pos_filter tag then
        (if is_valid_korean_word w then w # korean_loop pos_filter ms
         else korean_loop pos_filter ms)
      else korean_loop pos_filter ms)"

text \<open>
  \<open>_extract_korean_words\<close>: an exception of the tagger is caught, logged as an error,
  and the result is the empty list.
\<close>

definition extract_korean_words ::
  "analyzer \<Rightarrow> pystr \<Rightarrow> string list option \<Rightarrow> pystr list \<times> log_entry list" where
  "extract_korean_words an sentence pos_filter =
     (case pos an (analyzer_type an = ''okt'') sentence of
        Inl e \<Rightarrow> ([], [(ERROR, AnalysisFailed e)])
      | Inr ms \<Rightarrow> (korean_loop pos_filter ms, []))"

text \<open>
  \<open>extract_words_from_sentence\<close>. Nothing inside its \<open>try\<close> raises on a string (the
  tagger's exception is caught one level down), so its \<open>except\<close> branch is never taken
  and the function returns a list together with what was logged.
\<close>

definition extract_words_from_sentence ::
  "runtime \<Rightarrow> analyzer \<Rightarrow> pystr \<Rightarrow> string list option \<Rightarrow> pystr list \<times> log_entry list" where
  "extract_words_from_sentence rt an sentence pos_filter =
     (if sentence = [] \<or> py_strip rt sentence = [] then ([], [])
      else
        (let english_words = extract_english_words rt sentence;
             (korean_words, lg) = extract_korean_words an sentence pos_filter
         in (set_iter rt (english_words @ korean_words), lg)))"

section \<open>OpenSearchWordIndexer\<close>

text \<open>
  The dictionaries appended to \<open>words\<close>: the keys \<open>word\<close> and \<open>choseong\<close>, and the
  optional key \<open>source_sentence\<close> that \<open>index_words_to_auto_search\<close> looks for (the
  indexer itself never sets it).
\<close>

record word_record =
  word :: pystr
  choseong :: pystr
  source_sentence :: "pystr option"

text \<open>
  The search client is a collaborator. A hit is its \<open>_source\<close>, a dictionary from
  field names to sentences (strings); a search response carries \<open>_scroll_id\<close> and
  \<open>hits.hits\<close>. \<open>scroll cl n sid\<close> is the answer to the \<open>n\<close>-th call of
  \<open>client.scroll\<close> (counted from 0) with scroll id \<open>sid\<close>; \<open>clear_scroll\<close> returns
  the exception it raises, if any. The body of a bulk request alternates action lines
  and documents.
\<close>

type_synonym hit = "string \<Rightarrow> pystr option"

record search_response =
  scroll_id :: string
  hits :: "hit list"

datatype bulk_line =
    Action string pystr
  | Doc pystr pystr pystr "pystr option"

text \<open>
  An item of a bulk response: \<open>None\<close> when it has no key \<open>index\<close>, otherwise the
  \<open>error\<close> of its \<open>index\<close> entry, if there is one.
\<close>

type_synonym bulk_item = "string option option"

record bulk_response =
  errors :: bool
  items :: "bulk_item list"

record client =
  search :: "string \<Rightarrow> string list \<Rightarrow> exn + search_response"
  scroll :: "nat \<Rightarrow> string \<Rightarrow> exn + hit list"
  clear_scroll :: "string \<Rightarrow> exn option"
  bulk :: "bulk_line list \<Rightarrow> exn + bulk_response"

datatype call =
    Search string "string list"
  | Scroll string
  | ClearScroll string
  | Bulk "bulk_line list"

text \<open>
  The state a run threads through: the local variables \<open>words\<close> and
  \<open>processed_sentences\<close> of \<open>extract_words_from_index\<close>, the log, and the calls made
  to the search client. A function that can raise returns the exception (if any)
  with the state at that moment.
\<close>

record state =
  words :: "word_record list"
  processed_sentences :: nat
  logs :: "log_entry list"
  calls :: "call list"

definition log_to :: "level \<Rightarrow> message \<Rightarrow> state \<Rightarrow> state" where
  "log_to lv m st = st\<lparr>logs := logs st @ [(lv, m)]\<rparr>"

definition call_to :: "call \<Rightarrow> state \<Rightarrow> state" where
  "call_to c st = st\<lparr>calls := calls st @ [c]\<rparr>"

text \<open>\<open>for word in extracted_words: words.append({\<dots>})\<close>.\<close>

fun words_loop :: "runtime \<Rightarrow> pystr list \<Rightarrow> state \<Rightarrow> exn option \<times> state" where
  "words_loop rt [] st = (None, st)"
| "words_loop rt (w # extracted_words) st =
     (case extract_choseong rt w of
        Inl e \<Rightarrow> (Some e, st)
      | Inr c \<Rightarrow>
          words_loop rt extracted_words
            (st\<lparr>words := words st @ [\<lparr>word = w, choseong = c, source_sentence = None\<rparr>]\<rparr>))"

text \<open>\<open>for field in sentence_fields\<close>, on the \<open>_source\<close> of one hit.\<close>

fun fields_loop ::
  "runtime \<Rightarrow> analyzer \<Rightarrow> string list option \<Rightarrow> hit \<Rightarrow> string list \<Rightarrow> state
   \<Rightarrow> exn option \<times> state" where
  "fields_loop rt an pos_filter source [] st = (None, st)"
| "fields_loop rt an pos_filter source (field # more_fields) st =
     (case source field of
        None \<Rightarrow> fields_loop rt an pos_filter source more_fields st
      | Some sentence \<Rightarrow>
          if sentence = [] then fields_loop rt an pos_filter source more_fields st
          else
            (let st1 = st\<lparr>processed_sentences := processed_sentences st + 1\<rparr>;
                 (extracted_words, lg) = extract_words_from_sentence rt an sentence pos_filter;
                 st2 = st1\<lparr>logs := logs st1 @ lg\<rparr>
             in case words_loop rt extracted_words st2 of
                  (Some e, st3) \<Rightarrow> (Some e, st3)
                | (None, st3) \<Rightarrow> fields_loop rt an pos_filter source more_fields st3))"

text \<open>\<open>for hit in hits\<close>.\<close>

fun hits_loop ::
  "runtime \<Rightarrow> analyzer \<Rightarrow> string list option \<Rightarrow> string list \<Rightarrow> hit list \<Rightarrow> state
   \<Rightarrow> exn option \<times> state" where
  "hits_loop rt an pos_filter sentence_fields [] st = (None, st)"
| "hits_loop rt an pos_filter sentence_fields (source # rest) st =
     (case fields_loop rt an pos_filter source sentence_fields st of
        (Some e, st1) \<Rightarrow> (Some e, st1)
      | (None, st1) \<Rightarrow> hits_loop rt an pos_filter sentence_fields rest st1)"

text \<open>
  \<open>while hits\<close>: the page is processed, then the next one is asked for; an exception
  of \<open>client.scroll\<close> is logged as a warning and leaves the loop (\<open>break\<close>). The loop
  goes on for as long as the client returns pages that are not empty, so it need not
  terminate: \<open>None\<close> is the run that never returns.
\<close>

partial_function (option) scroll_loop ::
  "runtime \<Rightarrow> analyzer \<Rightarrow> client \<Rightarrow> string list option \<Rightarrow> string list \<Rightarrow> string \<Rightarrow> nat
   \<Rightarrow> hit list \<Rightarrow> state \<Rightarrow> (exn option \<times> state) option" where
  "scroll_loop rt an cl pos_filter sentence_fields sid n page st =
     (if page = [] then Some (None, st)
      else
        (case hits_loop rt an pos_filter sentence_fields page st of
           (Some e, st1) \<Rightarrow> Some (Some e, st1)
         | (None, st1) \<Rightarrow>
             (case scroll cl n sid of
                Inl scroll_error \<Rightarrow>
                  Some (None, log_to WARNING (ScrollFailed scroll_error) (call_to (Scroll sid) st1))
              | Inr next_page \<Rightarrow>
                  scroll_loop rt an cl pos_filter sentence_fields sid (Suc n) next_page
                    (call_to (Scroll sid) st1))))"

declare scroll_loop.simps [code]

text \<open>
  \<open>extract_words_from_index\<close>. On success the list it returns is \<open>words\<close> of the
  state. An exception of \<open>client.search\<close>, or one out of the loop, is logged as an
  error and raised again; \<open>clear_scroll\<close> is called after the loop and its exception
  is swallowed.
\<close>

definition extract_words_from_index ::
  "runtime \<Rightarrow> analyzer \<Rightarrow> client \<Rightarrow> string \<Rightarrow> string list \<Rightarrow> string list option \<Rightarrow> state
   \<Rightarrow> (exn option \<times> state) option" where
  "extract_words_from_index rt an cl source_index sentence_fields pos_filter st =
     (let st0 = call_to (Search source_index sentence_fields)
                  (st\<lparr>words := [], processed_sentences := 0\<rparr>)
      in case search cl source_index sentence_fields of
           Inl e \<Rightarrow> Some (Some e, log_to ERROR (ExtractionFailed e) st0)
         | Inr response \<Rightarrow>
             (case scroll_loop rt an cl pos_filter sentence_fields (scroll_id response) 0
                     (hits response) st0 of
                None \<Rightarrow> None
              | Some (Some e, st1) \<Rightarrow> Some (Some e, log_to ERROR (ExtractionFailed e) st1)
              | Some (None, st1) \<Rightarrow>
                  (let st2 = call_to (ClearScroll (scroll_id response)) st1
                   in Some (None,
                        log_to INFO
                          (ExtractionSummary (processed_sentences st2) (length (words st2)))
                          st2))))"

text \<open>The two lines of \<open>bulk_data\<close> for each word.\<close>

fun bulk_data_of :: "string \<Rightarrow> word_record list \<Rightarrow> bulk_line list" where
  "bulk_data_of target_index [] = []"
| "bulk_data_of target_index (word_data # rest) =
     Action target_index (word word_data)
     # Doc (word word_data) (word word_data) (choseong word_data) (source_sentence word_data)
     # bulk_data_of target_index rest"

fun item_errors :: "bulk_item list \<Rightarrow> log_entry list" where
  "item_errors [] = []"
| "item_errors (Some (Some err) # rest) = (ERROR, BulkItemError err) # item_errors rest"
| "item_errors (_ # rest) = item_errors rest"

text \<open>
  \<open>index_words_to_auto_search\<close>: nothing is sent for an empty list. What the function
  prints is left out.
\<close>

definition index_words_to_auto_search ::
  "client \<Rightarrow> word_record list \<Rightarrow> string \<Rightarrow> state \<Rightarrow> exn option \<times> state" where
  "index_words_to_auto_search cl ws target_index st =
     (if ws = [] then (None, log_to WARNING NoWordsToIndex st)
      else
        (let bulk_data = bulk_data_of target_index ws in
         if bulk_data \<noteq> [] then
           (let st1 = call_to (Bulk bulk_data) st in
            case bulk cl bulk_data of
              Inl e \<Rightarrow> (Some e, log_to ERROR (IndexingFailed e) st1)
            | Inr response \<Rightarrow>
                if errors response
                then (None, (log_to ERROR BulkHadErrors st1)
                              \<lparr>logs := logs (log_to ERROR BulkHadErrors st1)
                                        @ item_errors (items response)\<rparr>)
                else (None, log_to INFO (BulkIndexed (length ws)) st1))
         else (None, st)))"

text \<open>\<open>process_words_from_source_index\<close>, the whole run.\<close>

definition process_words_from_source_index ::
  "runtime \<Rightarrow> analyzer \<Rightarrow> client \<Rightarrow> string \<Rightarrow> string list \<Rightarrow> string \<Rightarrow> string list option
   \<Rightarrow> state \<Rightarrow> (exn option \<times> state) option" where
  "process_words_from_source_index rt an cl source_index sentence_fields target_index
       pos_filter st =
     (case extract_words_from_index rt an cl source_index sentence_fields pos_filter
             (log_to INFO (Extracting source_index) st) of
        None \<Rightarrow> None
      | Some (Some e, st1) \<Rightarrow> Some (Some e, log_to ERROR (ProcessFailed e) st1)
      | Some (None, st1) \<Rightarrow>
          if words st1 \<noteq> [] then
            (case index_words_to_auto_search cl (words st1) target_index
                    (log_to INFO (Indexing target_index) st1) of
               (Some e, st2) \<Rightarrow> Some (Some e, log_to ERROR (ProcessFailed e) st2)
             | (None, st2) \<Rightarrow> Some (None, log_to INFO Completed st2))
          else Some (None, log_to WARNING NoWordsToProcess st1))"

text \<open>The state a run starts from.\<close>

definition initial_state :: state where
  "initial_state = \<lparr>words = [], processed_sentences = 0, logs = [], calls = []\<rparr>"

section \<open>Reference definitions and observations used in the statements\<close>

text \<open>
  The contract of \<open>extract_choseong\<close> as the specification words it: the empty text
  gives the empty text; a text made of ASCII letters only is returned lower-cased;
  otherwise every character from \<open>U+AC00\<close> to \<open>U+D7A3\<close> is replaced by the symbol at
  index \<open>(codepoint - 0xAC00) div 588\<close> of a list of nineteen symbols, and every other
  character is copied. The list is a parameter here, since two lists are compared below.
\<close>

definition spec_choseong_char :: "pychar list \<Rightarrow> pychar \<Rightarrow> pychar" where
  "spec_choseong_char symbols c =
     (if 0xAC00 \<le> c \<and> c \<le> 0xD7A3 then symbols ! ((c - 0xAC00) div 588) else c)"

definition spec_extract_choseong_with :: "pychar list \<Rightarrow> pystr \<Rightarrow> pystr" where
  "spec_extract_choseong_with symbols text =
     (if text = [] then []
      else if list_all ascii_letter text then py_lower text
      else map (spec_choseong_char symbols) text)"

text \<open>
  The nineteen symbols as the specification prints them in its section 4.1: the
  conjoining Hangul Jamo \<open>U+1100\<close> to \<open>U+1112\<close>.
\<close>

definition spec_choseong_symbols :: "pychar list" where
  "spec_choseong_symbols =
     [0x1100, 0x1101, 0x1102, 0x1103, 0x1104, 0x1105, 0x1106, 0x1107, 0x1108, 0x1109,
      0x110A, 0x110B, 0x110C, 0x110D, 0x110E, 0x110F, 0x1110, 0x1111, 0x1112]"

definition spec_extract_choseong :: "pystr \<Rightarrow> pystr" where
  "spec_extract_choseong text = spec_extract_choseong_with spec_choseong_symbols text"

text \<open>The characters of the source's \<open>choseong_list\<close>: Hangul Compatibility Jamo.\<close>

definition compatibility_jamo :: "pychar list" where
  "compatibility_jamo =
     [0x3131, 0x3132, 0x3134, 0x3137, 0x3138, 0x3139, 0x3141, 0x3142, 0x3143, 0x3145,
      0x3146, 0x3147, 0x3148, 0x3149, 0x314A, 0x314B, 0x314C, 0x314D, 0x314E]"

text \<open>The simpler test that \<open>is_valid_korean_word\<close> is compared with.\<close>

definition long_with_syllable :: "pystr \<Rightarrow> bool" where
  "long_with_syllable w = (2 \<le> length w \<and> (\<exists>c \<in> set w. 44032 \<le> c \<and> c \<le> 55203))"

text \<open>What the invariant of the data model asks of an emitted word.\<close>

definition emitted_word_ok :: "runtime \<Rightarrow> pystr \<Rightarrow> bool" where
  "emitted_word_ok rt w =
     (2 \<le> length w \<and>
      (list_ex korean_syllable w \<or>
       (py_isalpha rt w \<and> list_all ascii_letter w \<and> length w \<le> 50)))"

text \<open>A blank sentence: empty, or whitespace only.\<close>

definition blank :: "runtime \<Rightarrow> pystr \<Rightarrow> bool" where
  "blank rt sentence = list_all (space rt) sentence"

text \<open>The bulk requests among the calls made so far.\<close>

fun is_bulk :: "call \<Rightarrow> bool" where
  "is_bulk (Bulk body) = True"
| "is_bulk _ = False"

definition bulk_calls :: "state \<Rightarrow> call list" where
  "bulk_calls st = filter is_bulk (calls st)"

text \<open>
  The page in hand and the state when the \<open>while\<close> loop of \<open>extract_words_from_index\<close>
  begins its iteration number \<open>n\<close> (from 0), if the run gets that far: every earlier
  page was not empty and processed without an exception, and every earlier call of
  \<open>client.scroll\<close> returned a page.
\<close>

fun paging_state ::
  "runtime \<Rightarrow> analyzer \<Rightarrow> client \<Rightarrow> string list option \<Rightarrow> string list \<Rightarrow> string
   \<Rightarrow> hit list \<Rightarrow> state \<Rightarrow> nat \<Rightarrow> (hit list \<times> state) option" where
  "paging_state rt an cl pos_filter sentence_fields sid first_page st0 0 =
     Some (first_page, st0)"
| "paging_state rt an cl pos_filter sentence_fields sid first_page st0 (Suc n) =
     (case paging_state rt an cl pos_filter sentence_fields sid first_page st0 n of
        None \<Rightarrow> None
      | Some (page, st) \<Rightarrow>
          if page = [] then None
          else
            (case hits_loop rt an pos_filter sentence_fields page st of
               (Some e, st1) \<Rightarrow> None
             | (None, st1) \<Rightarrow>
                 (case scroll cl n sid of
                    Inl e \<Rightarrow> None
                  | Inr next_page \<Rightarrow> Some (next_page, call_to (Scroll sid) st1))))"

text \<open>The state in which \<open>extract_words_from_index\<close> enters its loop.\<close>

definition entry_state :: "string \<Rightarrow> string list \<Rightarrow> state \<Rightarrow> state" where
  "entry_state source_index sentence_fields st =
     call_to (Search source_index sentence_fields) (st\<lparr>words := [], processed_sentences := 0\<rparr>)"

section \<open>Concrete collaborators for the examples\<close>

text \<open>
  A runtime whose tables are CPython's on ASCII and on the Hangul syllables (letters,
  and so alphanumeric), the characters the examples are written in; sets are iterated
  in the order \<open>remdups\<close> gives.
\<close>

definition example_runtime :: runtime where
  "example_runtime =
     \<lparr>alpha = (\<lambda>c. ascii_letter c \<or> korean_syllable c),
      alnum = (\<lambda>c. ascii_letter c \<or> (48 \<le> c \<and> c \<le> 57) \<or> korean_syllable c),
      space = (\<lambda>c. c = 32 \<or> (9 \<le> c \<and> c \<le> 13) \<or> (28 \<le> c \<and> c \<le> 31)),
      set_iter = remdups\<rparr>"

text \<open>A tagger that returns the whole sentence as one noun, and one that always raises.\<close>

definition whole_sentence_tagger :: analyzer where
  "whole_sentence_tagger =
     \<lparr>analyzer_type = ''okt'', pos = (\<lambda>flag sentence. Inr [(sentence, ''Noun'')])\<rparr>"


text \<open>The strings \<open>hello\<close> and \<open>ab ab\<close>, and the word of two syllables \<open>U+C548 U+B155\<close>.\<close>

definition hello :: pystr where
  "hello = [104, 101, 108, 108, 111]"

definition ab_ab :: pystr where
  "ab_ab = [97, 98, 32, 97, 98]"

definition annyeong :: pystr where
  "annyeong = [0xC548, 0xB155]"

definition hello_record :: word_record where
  "hello_record = \<lparr>word = hello, choseong = hello, source_sentence = None\<rparr>"

definition titled :: "pystr \<Rightarrow> hit" where
  "titled sentence = (\<lambda>field. if field = ''title'' then Some sentence else None)"

definition accepting_bulk :: "bulk_line list \<Rightarrow> exn + bulk_response" where
  "accepting_bulk body = Inr \<lparr>errors = False, items = []\<rparr>"

text \<open>
  Search clients: a source of two documents with the same title, delivered in one page;
  a source whose first page holds one document and whose next page cannot be fetched;
  an empty source; and a source that cannot be reached.
\<close>

definition two_documents :: client where
  "two_documents =
     \<lparr>search = (\<lambda>index flds. Inr \<lparr>scroll_id = ''c1'', hits = [titled hello, titled hello]\<rparr>),
      scroll = (\<lambda>n sid. Inr []),
      clear_scroll = (\<lambda>sid. None),
      bulk = accepting_bulk\<rparr>"

definition second_page_lost :: client where
  "second_page_lost =
     \<lparr>search = (\<lambda>index flds. Inr \<lparr>scroll_id = ''c1'', hits = [titled hello]\<rparr>),
      scroll = (\<lambda>n sid. Inl (External ''timeout'')),
      clear_scroll = (\<lambda>sid. None),
      bulk = accepting_bulk\<rparr>"

definition empty_source :: client where
  "empty_source =
     \<lparr>search = (\<lambda>index flds. Inr \<lparr>scroll_id = ''c1'', hits = []\<rparr>),
      scroll = (\<lambda>n sid. Inr []),
      clear_scroll = (\<lambda>sid. None),
      bulk = accepting_bulk\<rparr>"


section \<open>The validators\<close>

lemma syllable_excludes_only_other:
  assumes "list_ex korean_syllable w"
  shows "\<not> match_only_other w"
proof
  assume m: "match_only_other w"
  from assms obtain c where c: "c \<in> set w" "korean_syllable c"
    by (auto simp: list_ex_iff)
  from m show False
    unfolding match_only_other_def
  proof (elim disjE conjE)
    assume "list_all no_korean_no_latin w"
    with c show False by (auto simp: list_all_iff no_korean_no_latin_def)
  next
    assume ne: "w \<noteq> []" and l: "last w = 10"
      and b: "list_all no_korean_no_latin (butlast w)"
    from ne have "w = butlast w @ [last w]" by simp
    then have "set w = set (butlast w) \<union> {last w}"
      by (metis list.simps(15) set_append list.set(1) Un_insert_right sup_bot.right_neutral)
    with c have "c \<in> set (butlast w) \<or> c = last w" by auto
    with b c l show False
      by (auto simp: list_all_iff no_korean_no_latin_def korean_syllable_def)
  qed
qed

text \<open>
  Claim C9. For every string, \<open>is_valid_korean_word\<close> says the same as the simpler test
  "at least two characters, one of them from \<open>U+AC00\<close> to \<open>U+D7A3\<close>"; the third check
  of the implementation (the match of \<open>^[^\<dots>a-zA-Z]*$\<close>) never succeeds on a word that
  passed the check for a Hangul syllable.
\<close>

theorem is_valid_korean_word_third_check_redundant:
  "is_valid_korean_word w = long_with_syllable w
   \<and> (2 \<le> length w \<and> list_ex korean_syllable w \<longrightarrow> \<not> match_only_other w)"
  using syllable_excludes_only_other [of w]
  by (auto simp: is_valid_korean_word_def long_with_syllable_def list_ex_iff korean_syllable_def)

theorem is_valid_korean_word_third_check_redundant_witness:
  "is_valid_korean_word annyeong \<and> long_with_syllable annyeong
   \<and> list_ex korean_syllable annyeong \<and> \<not> match_only_other annyeong
   \<and> \<not> is_valid_korean_word [49, 50, 51] \<and> \<not> long_with_syllable [49, 50, 51]"
  using is_valid_korean_word_third_check_redundant [of annyeong]
    is_valid_korean_word_third_check_redundant [of "[49, 50, 51]"]
  by (simp add: annyeong_def korean_syllable_def long_with_syllable_def)

text \<open>
  Claim C10. \<open>is_valid_english_word\<close> does not ask for ASCII letters: every string of
  2 to 50 characters that are all letters of the Unicode table is accepted. With the
  two syllables \<open>U+C548\<close> and \<open>U+B155\<close> being letters, as they are in Unicode, the
  Korean word made of them is accepted although it holds no ASCII letter.
\<close>

theorem is_valid_english_word_accepts_any_letters:
  "(2 \<le> length w \<and> length w \<le> 50 \<and> list_all (alpha rt) w \<longrightarrow> is_valid_english_word rt w)
   \<and> (alpha rt 0xC548 \<and> alpha rt 0xB155 \<longrightarrow>
        is_valid_english_word rt annyeong \<and> \<not> list_ex ascii_letter annyeong)"
  by (auto simp: is_valid_english_word_def py_isalpha_def annyeong_def ascii_letter_def)

theorem is_valid_english_word_accepts_any_letters_witness:
  "is_valid_english_word example_runtime annyeong \<and> \<not> list_ex ascii_letter annyeong"
  using is_valid_english_word_accepts_any_letters [of annyeong example_runtime]
  by (simp add: example_runtime_def korean_syllable_def annyeong_def)

section \<open>The choseong extractor\<close>

lemma choseong_list_jamo: "choseong_list = map (\<lambda>c. [c]) compatibility_jamo"
  by (simp add: choseong_list_def compatibility_jamo_def)

lemma length_jamo: "length compatibility_jamo = 19"
  by (simp add: compatibility_jamo_def)

lemma choseong_code_bound:
  assumes "44032 \<le> c" "c \<le> (55203::nat)"
  shows "(c - 44032) div 588 < 19"
  using assms by arith

lemma choseong_code_int:
  assumes "44032 \<le> (c::nat)"
  shows "(int c - 44032) div 588 = int ((c - 44032) div 588)"
  using assms by (simp add: of_nat_diff zdiv_int)

lemma getitem_in_range:
  assumes "i < length xs"
  shows "py_getitem xs (int i) = Inr (xs ! i)"
  using assms by (simp add: py_getitem_def)

lemma getitem_choseong:
  assumes "44032 \<le> c" "c \<le> (55203::nat)"
  shows "py_getitem choseong_list ((int c - 44032) div 588)
         = Inr [compatibility_jamo ! ((c - 44032) div 588)]"
proof -
  let ?i = "(c - 44032) div 588"
  have b: "?i < 19" using assms by (rule choseong_code_bound)
  have e: "(int c - 44032) div 588 = int ?i"
    using assms(1) by (rule choseong_code_int)
  have l: "?i < length choseong_list"
    using b by (simp add: choseong_list_jamo length_jamo)
  have n: "choseong_list ! ?i = [compatibility_jamo ! ?i]"
    using b by (simp add: choseong_list_jamo length_jamo)
  show ?thesis
    unfolding e using getitem_in_range [OF l] n by simp
qed

lemma choseong_loop_map:
  "choseong_loop s acc = Inr (acc @ map (spec_choseong_char compatibility_jamo) s)"
proof (induction s arbitrary: acc)
  case Nil
  show ?case by simp
next
  case (Cons c s)
  show ?case
  proof (cases "44032 \<le> c \<and> c \<le> 55203")
    case True
    then show ?thesis
      using getitem_choseong [of c] Cons.IH
      by (simp add: spec_choseong_char_def)
  next
    case False
    then show ?thesis
      using Cons.IH by (auto simp: spec_choseong_char_def)
  qed
qed

lemma ascii_only_letters:
  assumes "alpha_ascii_ok rt"
  shows "(py_isalpha rt s \<and> py_isascii s) = (s \<noteq> [] \<and> list_all ascii_letter s)"
proof -
  have "\<And>c. c < 128 \<Longrightarrow> alpha rt c = ascii_letter c"
    using assms by (simp add: alpha_ascii_ok_def)
  moreover have "\<And>c. ascii_letter c \<Longrightarrow> c < 128"
    by (auto simp: ascii_letter_def)
  ultimately show ?thesis
    by (auto simp: py_isalpha_def py_isascii_def list_all_iff)
qed

lemma extract_choseong_refines:
  assumes "alpha_ascii_ok rt"
  shows "extract_choseong rt s = Inr (spec_extract_choseong_with compatibility_jamo s)"
  using ascii_only_letters [OF assms, of s]
  by (simp add: extract_choseong_def spec_extract_choseong_with_def choseong_loop_map)

lemma example_runtime_ascii: "alpha_ascii_ok example_runtime"
  by (auto simp: alpha_ascii_ok_def example_runtime_def korean_syllable_def)

lemma example_runtime_set_iter: "set_iter_ok example_runtime"
  by (simp add: set_iter_ok_def example_runtime_def)

text \<open>
  Claim C2 (as amended). \<open>extract_choseong\<close> never raises and computes the contract
  of the specification's section 4.1 read with the list of the nineteen Hangul
  Compatibility Jamo \<open>U+3131\<close>, \<dots>, \<open>U+314E\<close>: the empty text gives the empty
  text, a text of ASCII letters is returned lower-cased, and otherwise each character
  from \<open>U+AC00\<close> to \<open>U+D7A3\<close> is replaced by the symbol at index
  \<open>(codepoint - 0xAC00) div 588\<close> and every other character is copied. The three
  examples of the specification hold.
\<close>

theorem extract_choseong_refines_with_compatibility_jamo:
  assumes "alpha_ascii_ok rt"
  shows "extract_choseong rt s = Inr (spec_extract_choseong_with compatibility_jamo s)
         \<and> extract_choseong rt [] = Inr []
         \<and> extract_choseong rt [97, 98, 99] = Inr [97, 98, 99]
         \<and> extract_choseong rt annyeong = Inr [0x3147, 0x3134]"
proof -
  have r: "\<And>t. extract_choseong rt t = Inr (spec_extract_choseong_with compatibility_jamo t)"
    using assms by (rule extract_choseong_refines)
  have "spec_extract_choseong_with compatibility_jamo [97, 98, 99] = [97, 98, 99]"
    by (simp add: spec_extract_choseong_with_def ascii_letter_def py_lower_def lower_char_def)
  moreover have "spec_extract_choseong_with compatibility_jamo annyeong = [0x3147, 0x3134]"
    by (simp add: spec_extract_choseong_with_def ascii_letter_def annyeong_def
        spec_choseong_char_def compatibility_jamo_def)
  moreover have "spec_extract_choseong_with compatibility_jamo [] = []"
    by (simp add: spec_extract_choseong_with_def)
  ultimately show ?thesis by (simp add: r)
qed

theorem extract_choseong_refines_with_compatibility_jamo_witness:
  "alpha_ascii_ok example_runtime
   \<and> extract_choseong example_runtime [0xD55C, 0xAE00, 49]
       = Inr (spec_extract_choseong_with compatibility_jamo [0xD55C, 0xAE00, 49])
   \<and> extract_choseong example_runtime [0xD55C, 0xAE00, 49] = Inr [0x314E, 0x3131, 49]"
proof -
  have "spec_extract_choseong_with compatibility_jamo [0xD55C, 0xAE00, 49] = [0x314E, 0x3131, 49]"
    by (simp add: spec_extract_choseong_with_def ascii_letter_def
        spec_choseong_char_def compatibility_jamo_def)
  then show ?thesis
    using extract_choseong_refines_with_compatibility_jamo [OF example_runtime_ascii, of "[0xD55C, 0xAE00, 49]"]
      example_runtime_ascii
    by simp
qed

text \<open>
  With the list as section 4.1 prints it (the conjoining Jamo \<open>U+1100\<close> to
  \<open>U+1112\<close>) the contract gives \<open>U+110B U+1102\<close> for the word \<open>U+C548 U+B155\<close>,
  while the code, and the specification's own example, give \<open>U+3147 U+3134\<close>.
\<close>

theorem extract_choseong_differs_from_printed_list:
  "extract_choseong example_runtime annyeong \<noteq> Inr (spec_extract_choseong annyeong)"
  by (simp add: extract_choseong_def annyeong_def py_isalpha_def py_isascii_def example_runtime_def
      py_getitem_def choseong_list_def spec_extract_choseong_def spec_extract_choseong_with_def
      ascii_letter_def spec_choseong_char_def spec_choseong_symbols_def)

lemma jamo_range: "x \<in> set compatibility_jamo \<Longrightarrow> 128 \<le> x \<and> x < 44032"
  by (auto simp: compatibility_jamo_def)

lemma choseong_char_syllable:
  assumes "korean_syllable c"
  shows "spec_choseong_char compatibility_jamo c \<in> set compatibility_jamo"
proof -
  from assms have "(c - 44032) div 588 < length compatibility_jamo"
    using choseong_code_bound [of c] by (simp add: korean_syllable_def length_jamo)
  then have "compatibility_jamo ! ((c - 44032) div 588) \<in> set compatibility_jamo"
    by (rule nth_mem)
  with assms show ?thesis by (simp add: spec_choseong_char_def korean_syllable_def)
qed

lemma choseong_char_other:
  "\<not> korean_syllable c \<Longrightarrow> spec_choseong_char compatibility_jamo c = c"
  by (auto simp: spec_choseong_char_def korean_syllable_def)

lemma choseong_char_not_syllable:
  "\<not> korean_syllable (spec_choseong_char compatibility_jamo c)"
proof (cases "korean_syllable c")
  case True
  from jamo_range [OF choseong_char_syllable [OF True]] show ?thesis
    by (simp add: korean_syllable_def)
next
  case False
  then show ?thesis by (simp add: choseong_char_other)
qed

lemma choseong_char_idem:
  "spec_choseong_char compatibility_jamo (spec_choseong_char compatibility_jamo c)
   = spec_choseong_char compatibility_jamo c"
  by (rule choseong_char_other) (rule choseong_char_not_syllable)

lemma choseong_char_ascii:
  assumes "spec_choseong_char compatibility_jamo c < 128"
  shows "spec_choseong_char compatibility_jamo c = c"
proof (cases "korean_syllable c")
  case True
  from jamo_range [OF choseong_char_syllable [OF True]] assms show ?thesis by simp
next
  case False
  then show ?thesis by (rule choseong_char_other)
qed

lemma lower_char_idem: "lower_char (lower_char c) = lower_char c"
  by (simp add: lower_char_def)

lemma lower_char_ascii: "c < 128 \<Longrightarrow> lower_char c < 128"
  by (simp add: lower_char_def)

lemma extract_choseong_cases:
  "extract_choseong rt s =
     (if s = [] then Inr []
      else if py_isalpha rt s \<and> py_isascii s then Inr (py_lower s)
      else Inr (map (spec_choseong_char compatibility_jamo) s))"
  by (simp add: extract_choseong_def choseong_loop_map)

lemma map_choseong_ascii:
  assumes "py_isascii (map (spec_choseong_char compatibility_jamo) s)"
  shows "map (spec_choseong_char compatibility_jamo) s = s"
proof -
  have "\<And>c. c \<in> set s \<Longrightarrow> spec_choseong_char compatibility_jamo c = c"
    using assms choseong_char_ascii by (auto simp: py_isascii_def list_all_iff)
  then show ?thesis by (simp add: map_idI)
qed

lemma map_choseong_of_ascii:
  assumes "py_isascii s"
  shows "map (spec_choseong_char compatibility_jamo) s = s"
proof -
  have "\<And>c. c \<in> set s \<Longrightarrow> spec_choseong_char compatibility_jamo c = c"
    using assms by (auto simp: py_isascii_def list_all_iff spec_choseong_char_def)
  then show ?thesis by (simp add: map_idI)
qed

lemma extract_choseong_idem:
  assumes "extract_choseong rt s = Inr t"
  shows "extract_choseong rt t = Inr t"
proof -
  let ?g = "map (spec_choseong_char compatibility_jamo)"
  consider (empty) "s = []"
    | (english) "s \<noteq> []" "py_isalpha rt s \<and> py_isascii s"
    | (other) "s \<noteq> []" "\<not> (py_isalpha rt s \<and> py_isascii s)"
    by blast
  then show ?thesis
  proof cases
    case empty
    with assms show ?thesis by (simp add: extract_choseong_cases)
  next
    case english
    with assms have t: "t = py_lower s" by (simp add: extract_choseong_cases)
    from english have "py_isascii t"
      by (auto simp: t py_lower_def py_isascii_def list_all_iff lower_char_ascii)
    then have g: "?g t = t" by (rule map_choseong_of_ascii)
    have l: "py_lower t = t" by (simp add: t py_lower_def lower_char_idem)
    show ?thesis by (simp add: extract_choseong_cases g l)
  next
    case other
    with assms have t: "t = ?g s" by (simp add: extract_choseong_cases)
    have i: "?g t = t" by (simp add: t choseong_char_idem)
    have "\<not> (py_isalpha rt t \<and> py_isascii t)"
    proof
      assume a: "py_isalpha rt t \<and> py_isascii t"
      then have "?g s = s" using map_choseong_ascii [of s] by (simp add: t)
      with a other t show False by simp
    qed
    then show ?thesis by (auto simp: extract_choseong_cases i)
  qed
qed

lemma extract_choseong_total: "\<exists>t. extract_choseong rt s = Inr t"
  by (simp add: extract_choseong_cases)

lemma extract_choseong_syllable:
  assumes "korean_syllable c"
  shows "extract_choseong rt [c] = Inr [spec_choseong_char compatibility_jamo c]"
  using assms
  by (simp add: extract_choseong_cases py_isascii_def korean_syllable_def)

text \<open>
  Claim C5. For every character of the Hangul syllable block, \<open>extract_choseong\<close> of
  the one-character string is one element of \<open>choseong_list\<close>, a single symbol; the
  list holds nineteen symbols, all different. The result is a function of the text
  (and of the runtime's letter table), and applying \<open>extract_choseong\<close> to its own
  result gives that result again, for every string.
\<close>

theorem extract_choseong_symbol_and_idempotent:
  "(korean_syllable c \<longrightarrow>
      (\<exists>jamo \<in> set choseong_list. extract_choseong rt [c] = Inr jamo \<and> length jamo = 1))
   \<and> length choseong_list = 19 \<and> distinct choseong_list
   \<and> (\<exists>t. extract_choseong rt s = Inr t \<and> extract_choseong rt t = Inr t)"
proof -
  have a: "\<exists>jamo \<in> set choseong_list. extract_choseong rt [c] = Inr jamo \<and> length jamo = 1"
    if "korean_syllable c"
  proof -
    have "[spec_choseong_char compatibility_jamo c] \<in> set choseong_list"
      using choseong_char_syllable [OF that] by (simp add: choseong_list_jamo)
    then show ?thesis using extract_choseong_syllable [OF that, of rt] by auto
  qed
  have b: "length choseong_list = 19 \<and> distinct choseong_list"
    by (simp add: choseong_list_def)
  obtain t where t: "extract_choseong rt s = Inr t"
    using extract_choseong_total by blast
  then have "extract_choseong rt t = Inr t" by (rule extract_choseong_idem)
  with t a b show ?thesis by blast
qed

theorem extract_choseong_symbol_and_idempotent_witness:
  "korean_syllable 0xD55C
   \<and> extract_choseong example_runtime [0xD55C] = Inr [0x314E]
   \<and> [0x314E] \<in> set choseong_list
   \<and> extract_choseong example_runtime [0xD55C, 0xAE00, 49] = Inr [0x314E, 0x3131, 49]
   \<and> extract_choseong example_runtime [0x314E, 0x3131, 49] = Inr [0x314E, 0x3131, 49]"
proof -
  have k: "korean_syllable 0xD55C" by (simp add: korean_syllable_def)
  have e: "extract_choseong example_runtime [0xD55C] = Inr [0x314E]"
    by (simp add: extract_choseong_cases py_isascii_def spec_choseong_char_def
        compatibility_jamo_def)
  have f: "extract_choseong example_runtime [0xD55C, 0xAE00, 49] = Inr [0x314E, 0x3131, 49]"
    by (simp add: extract_choseong_cases py_isascii_def spec_choseong_char_def
        compatibility_jamo_def)
  have m: "[0x314E] \<in> set choseong_list" by (simp add: choseong_list_def)
  from extract_choseong_symbol_and_idempotent [of "0xD55C" example_runtime "[0xD55C, 0xAE00, 49]"]
  have "extract_choseong example_runtime [0x314E, 0x3131, 49] = Inr [0x314E, 0x3131, 49]"
    by (simp add: f)
  with k e f m show ?thesis by simp
qed

section \<open>The words of one sentence\<close>

lemma strip_empty_iff: "(py_strip rt s = []) = list_all (space rt) s"
proof -
  let ?d = "dropWhile (space rt) s"
  have "(py_strip rt s = []) = (\<forall>x \<in> set ?d. space rt x)"
    by (simp add: py_strip_def dropWhile_eq_Nil_conv)
  also have "\<dots> = (?d = [])"
  proof
    assume a: "\<forall>x \<in> set ?d. space rt x"
    show "?d = []"
    proof (rule ccontr)
      assume n: "?d \<noteq> []"
      then have "\<not> space rt (hd ?d)" by (rule hd_dropWhile)
      moreover from n have "hd ?d \<in> set ?d" by simp
      ultimately show False using a by blast
    qed
  next
    assume e: "?d = []"
    show "\<forall>x \<in> set ?d. space rt x" unfolding e by simp
  qed
  also have "\<dots> = list_all (space rt) s"
    by (simp add: dropWhile_eq_Nil_conv list_all_iff)
  finally show ?thesis .
qed


lemma blank_sentence_no_words:
  assumes "blank rt s"
  shows "extract_words_from_sentence rt an s pf = ([], [])"
  using assms by (simp add: extract_words_from_sentence_def strip_empty_iff blank_def)

lemma sentence_words_set:
  assumes "set_iter_ok rt" "\<not> blank rt s"
  shows "set (fst (extract_words_from_sentence rt an s pf))
         = set (extract_english_words rt s) \<union> set (fst (extract_korean_words an s pf))"
proof -
  from assms(2) have n: "s \<noteq> [] \<and> py_strip rt s \<noteq> []"
    by (auto simp: strip_empty_iff blank_def)
  from assms(1) have "\<And>xs. set (set_iter rt xs) = set xs" by (simp add: set_iter_ok_def)
  with n show ?thesis
    by (simp add: extract_words_from_sentence_def split: prod.split)
qed


lemma ab_ab_english: "extract_english_words example_runtime ab_ab = [[97, 98], [97, 98]]"
  by (simp add: extract_english_words_def findall_english_def ab_ab_def match_at_def
      word_boundary_def re_word_def char_at_def example_runtime_def ascii_letter_def
      is_valid_english_word_def py_isalpha_def py_lower_def lower_char_def korean_syllable_def)

lemma ab_ab_words:
  "extract_words_from_sentence example_runtime whole_sentence_tagger ab_ab None = ([[97, 98]], [])"
proof -
  have k: "extract_korean_words whole_sentence_tagger ab_ab None = ([], [])"
    by (simp add: extract_korean_words_def whole_sentence_tagger_def passes_filter_def
        is_valid_korean_word_def ab_ab_def korean_syllable_def)
  have b: "\<not> blank example_runtime ab_ab"
    by (simp add: blank_def ab_ab_def example_runtime_def)
  then have "ab_ab \<noteq> [] \<and> py_strip example_runtime ab_ab \<noteq> []"
    by (auto simp: strip_empty_iff blank_def)
  then show ?thesis
    by (simp add: extract_words_from_sentence_def k ab_ab_english) (simp add: example_runtime_def)
qed




lemma match_end_bounds: "match_end rt s k = Some m \<Longrightarrow> 2 \<le> m \<and> m \<le> k"
proof (induction k)
  case 0
  then show ?case by simp
next
  case (Suc k)
  then show ?case by (auto split: if_splits)
qed

lemma match_at_bounds:
  "match_at rt prev s = Some m \<Longrightarrow> 2 \<le> m \<and> m \<le> length (takeWhile ascii_letter s)"
  by (auto simp: match_at_def split: if_splits dest: match_end_bounds)

lemma take_of_run:
  assumes "m \<le> length (takeWhile P s)"
  shows "list_all P (take m s) \<and> length (take m s) = m"
proof -
  have "take m (takeWhile P s @ dropWhile P s) = take m (takeWhile P s)"
    using assms by (simp del: takeWhile_dropWhile_id)
  then have e: "take m s = take m (takeWhile P s)"
    by (simp only: takeWhile_dropWhile_id)
  have "\<And>x. x \<in> set (take m (takeWhile P s)) \<Longrightarrow> P x"
    by (meson in_set_takeD set_takeWhileD)
  then have "list_all P (take m s)" by (simp add: e list_all_iff)
  moreover have "length (take m s) = m" using assms by (simp add: e)
  ultimately show ?thesis by simp
qed

lemma findall_from_letters:
  "w \<in> set (findall_from rt prev skip s) \<Longrightarrow> 2 \<le> length w \<and> list_all ascii_letter w"
proof (induction s arbitrary: prev skip)
  case Nil
  then show ?case by simp
next
  case (Cons c s)
  show ?case
  proof (cases "0 < skip")
    case True
    with Cons show ?thesis by simp
  next
    case False
    show ?thesis
    proof (cases "match_at rt prev (c # s)")
      case None
      with False Cons show ?thesis by simp
    next
      case (Some m)
      from match_at_bounds [OF Some] take_of_run [of m ascii_letter "c # s"]
      have "2 \<le> length (take m (c # s)) \<and> list_all ascii_letter (take m (c # s))"
        by simp
      with False Some Cons show ?thesis by auto
    qed
  qed
qed

lemma english_loop_mem:
  "w \<in> set (english_loop rt ws) \<Longrightarrow> \<exists>v \<in> set ws. is_valid_english_word rt v \<and> w = py_lower v"
  by (induction ws) (auto split: if_splits)

lemma lower_letter: "ascii_letter c \<Longrightarrow> ascii_letter (lower_char c)"
  by (auto simp: ascii_letter_def lower_char_def)

lemma letters_alpha:
  assumes "alpha_ascii_ok rt" "list_all ascii_letter w" "w \<noteq> []"
  shows "py_isalpha rt w"
proof -
  have "\<And>c. ascii_letter c \<Longrightarrow> alpha rt c"
    using assms(1) by (auto simp: alpha_ascii_ok_def ascii_letter_def)
  with assms(2,3) show ?thesis by (auto simp: py_isalpha_def list_all_iff)
qed

lemma english_word_ok:
  assumes "alpha_ascii_ok rt" "w \<in> set (extract_english_words rt s)"
  shows "emitted_word_ok rt w"
proof -
  from assms(2) obtain v where v: "v \<in> set (findall_english rt s)"
      "is_valid_english_word rt v" "w = py_lower v"
    by (auto simp: extract_english_words_def dest: english_loop_mem)
  from v(1) have f: "2 \<le> length v \<and> list_all ascii_letter v"
    by (simp add: findall_english_def findall_from_letters)
  from v(2) have "length v \<le> 50"
    by (simp add: is_valid_english_word_def split: if_splits)
  with f have l: "2 \<le> length w \<and> length w \<le> 50 \<and> list_all ascii_letter w"
    by (auto simp: v(3) py_lower_def list_all_iff lower_letter)
  then have "w \<noteq> []" by auto
  with l assms(1) have "py_isalpha rt w" by (simp add: letters_alpha)
  with l show ?thesis by (simp add: emitted_word_ok_def)
qed

lemma korean_loop_mem: "w \<in> set (korean_loop pf ms) \<Longrightarrow> is_valid_korean_word w"
  by (induction pf ms rule: korean_loop.induct) (auto split: if_splits)

lemma korean_word_ok:
  assumes "w \<in> set (fst (extract_korean_words an s pf))"
  shows "emitted_word_ok rt w"
proof -
  from assms have "is_valid_korean_word w"
    by (auto simp: extract_korean_words_def split: sum.splits dest: korean_loop_mem)
  then show ?thesis
    by (simp add: is_valid_korean_word_def emitted_word_ok_def split: if_splits)
qed

lemma sentence_word_ok:
  assumes "set_iter_ok rt" "alpha_ascii_ok rt"
    and "w \<in> set (fst (extract_words_from_sentence rt an s pf))"
  shows "emitted_word_ok rt w"
proof (cases "blank rt s")
  case True
  with assms(3) show ?thesis by (simp add: blank_sentence_no_words)
next
  case False
  with assms(1,3) have "w \<in> set (extract_english_words rt s)
      \<or> w \<in> set (fst (extract_korean_words an s pf))"
    by (simp add: sentence_words_set)
  with assms(2) show ?thesis using english_word_ok korean_word_ok by blast
qed

section \<open>The loops of the indexing run\<close>

lemma log_to_fields [simp]:
  "words (log_to lv m st) = words st"
  "calls (log_to lv m st) = calls st"
  "processed_sentences (log_to lv m st) = processed_sentences st"
  "logs (log_to lv m st) = logs st @ [(lv, m)]"
  by (simp_all add: log_to_def)

lemma call_to_fields [simp]:
  "words (call_to c st) = words st"
  "calls (call_to c st) = calls st @ [c]"
  "processed_sentences (call_to c st) = processed_sentences st"
  "logs (call_to c st) = logs st"
  by (simp_all add: call_to_def)

lemma words_loop_result:
  "fst (words_loop rt ws st) = None
   \<and> map word (words (snd (words_loop rt ws st))) = map word (words st) @ ws
   \<and> calls (snd (words_loop rt ws st)) = calls st
   \<and> logs (snd (words_loop rt ws st)) = logs st
   \<and> processed_sentences (snd (words_loop rt ws st)) = processed_sentences st"
proof (induction ws arbitrary: st)
  case Nil
  show ?case by simp
next
  case (Cons w ws)
  obtain c where c: "extract_choseong rt w = Inr c"
    using extract_choseong_total by blast
  show ?case using Cons [of "st\<lparr>words := words st @ [\<lparr>word = w, choseong = c, source_sentence = None\<rparr>]\<rparr>"]
    by (simp add: c)
qed

lemma words_loop_inv:
  assumes "\<forall>r \<in> set (words st). P r"
    and "\<And>w c. w \<in> set ws \<Longrightarrow> extract_choseong rt w = Inr c
           \<Longrightarrow> P \<lparr>word = w, choseong = c, source_sentence = None\<rparr>"
  shows "\<forall>r \<in> set (words (snd (words_loop rt ws st))). P r"
  using assms
proof (induction ws arbitrary: st)
  case Nil
  then show ?case by simp
next
  case (Cons w ws)
  obtain c where c: "extract_choseong rt w = Inr c"
    using extract_choseong_total by blast
  let ?st = "st\<lparr>words := words st @ [\<lparr>word = w, choseong = c, source_sentence = None\<rparr>]\<rparr>"
  have "\<forall>r \<in> set (words ?st). P r"
    using Cons.prems c by simp
  then have "\<forall>r \<in> set (words (snd (words_loop rt ws ?st))). P r"
    using Cons.prems(2) by (intro Cons.IH) simp_all
  then show ?case by (simp add: c)
qed

lemma fields_loop_result:
  "fst (fields_loop rt an pf source flds st) = None
   \<and> calls (snd (fields_loop rt an pf source flds st)) = calls st"
proof (induction flds arbitrary: st)
  case Nil
  show ?case by simp
next
  case (Cons f flds)
  show ?case
  proof (cases "source f")
    case None
    then show ?thesis using Cons by simp
  next
    case (Some sentence)
    show ?thesis
    proof (cases "sentence = []")
      case True
      with Some show ?thesis using Cons by simp
    next
      case False
      obtain ws lg where e: "extract_words_from_sentence rt an sentence pf = (ws, lg)"
        by (cases "extract_words_from_sentence rt an sentence pf")
      let ?st2 = "st\<lparr>processed_sentences := processed_sentences st + 1,
                      logs := logs st @ lg\<rparr>"
      obtain st3 where w: "words_loop rt ws ?st2 = (None, st3)"
        using words_loop_result [of rt ws ?st2] by (cases "words_loop rt ws ?st2") simp
      have "calls st3 = calls st"
        using words_loop_result [of rt ws ?st2] w by simp
      with Some False e w show ?thesis using Cons [of st3] by simp
    qed
  qed
qed

lemma fields_loop_inv:
  assumes "\<forall>r \<in> set (words st). P r"
    and "\<And>s w c. w \<in> set (fst (extract_words_from_sentence rt an s pf))
           \<Longrightarrow> extract_choseong rt w = Inr c
           \<Longrightarrow> P \<lparr>word = w, choseong = c, source_sentence = None\<rparr>"
  shows "\<forall>r \<in> set (words (snd (fields_loop rt an pf source flds st))). P r"
  using assms(1)
proof (induction flds arbitrary: st)
  case Nil
  then show ?case by simp
next
  case (Cons f flds)
  show ?case
  proof (cases "source f")
    case None
    then show ?thesis using Cons by simp
  next
    case (Some sentence)
    show ?thesis
    proof (cases "sentence = []")
      case True
      with Some show ?thesis using Cons by simp
    next
      case False
      obtain ws lg where e: "extract_words_from_sentence rt an sentence pf = (ws, lg)"
        by (cases "extract_words_from_sentence rt an sentence pf")
      let ?st2 = "st\<lparr>processed_sentences := processed_sentences st + 1,
                      logs := logs st @ lg\<rparr>"
      obtain st3 where w: "words_loop rt ws ?st2 = (None, st3)"
        using words_loop_result [of rt ws ?st2] by (cases "words_loop rt ws ?st2") simp
      have "\<forall>r \<in> set (words (snd (words_loop rt ws ?st2))). P r"
      proof (rule words_loop_inv)
        show "\<forall>r \<in> set (words ?st2). P r" using Cons.prems by simp
      next
        fix w c assume "w \<in> set ws" "extract_choseong rt w = Inr c"
        then show "P \<lparr>word = w, choseong = c, source_sentence = None\<rparr>"
          using assms(2) [of w sentence c] e by simp
      qed
      with w have "\<forall>r \<in> set (words st3). P r" by simp
      then have "\<forall>r \<in> set (words (snd (fields_loop rt an pf source flds st3))). P r"
        by (rule Cons.IH)
      with Some False e w show ?thesis by simp
    qed
  qed
qed

lemma hits_loop_result:
  "fst (hits_loop rt an pf flds page st) = None
   \<and> calls (snd (hits_loop rt an pf flds page st)) = calls st"
proof (induction page arbitrary: st)
  case Nil
  show ?case by simp
next
  case (Cons source page)
  obtain st1 where f: "fields_loop rt an pf source flds st = (None, st1)"
    using fields_loop_result [of rt an pf source flds st]
    by (cases "fields_loop rt an pf source flds st") simp
  then have "calls st1 = calls st"
    using fields_loop_result [of rt an pf source flds st] by simp
  with f show ?case using Cons [of st1] by simp
qed

lemma hits_loop_inv:
  assumes "\<forall>r \<in> set (words st). P r"
    and "\<And>s w c. w \<in> set (fst (extract_words_from_sentence rt an s pf))
           \<Longrightarrow> extract_choseong rt w = Inr c
           \<Longrightarrow> P \<lparr>word = w, choseong = c, source_sentence = None\<rparr>"
  shows "\<forall>r \<in> set (words (snd (hits_loop rt an pf flds page st))). P r"
  using assms(1)
proof (induction page arbitrary: st)
  case Nil
  then show ?case by simp
next
  case (Cons source page)
  obtain st1 where f: "fields_loop rt an pf source flds st = (None, st1)"
    using fields_loop_result [of rt an pf source flds st]
    by (cases "fields_loop rt an pf source flds st") simp
  have "\<forall>r \<in> set (words (snd (fields_loop rt an pf source flds st))). P r"
    using Cons.prems assms(2) by (rule fields_loop_inv)
  then have "\<forall>r \<in> set (words st1). P r" by (simp add: f)
  then have "\<forall>r \<in> set (words (snd (hits_loop rt an pf flds page st1))). P r"
    by (rule Cons.IH)
  with f show ?case by simp
qed

lemma hits_loop_None:
  "hits_loop rt an pf flds page st = (None, snd (hits_loop rt an pf flds page st))"
  using hits_loop_result [of rt an pf flds page st]
  by (cases "hits_loop rt an pf flds page st") simp

lemma scroll_loop_done:
  "scroll_loop rt an cl pf flds sid n [] st = Some (None, st)"
  by (subst scroll_loop.simps) simp

lemma scroll_loop_break:
  assumes "page \<noteq> []" "scroll cl n sid = Inl e"
  shows "scroll_loop rt an cl pf flds sid n page st
         = Some (None, log_to WARNING (ScrollFailed e)
                         (call_to (Scroll sid) (snd (hits_loop rt an pf flds page st))))"
proof -
  obtain st1 where h: "hits_loop rt an pf flds page st = (None, st1)"
    using hits_loop_None by blast
  show ?thesis by (subst scroll_loop.simps) (simp add: assms h)
qed

lemma scroll_loop_next:
  assumes "page \<noteq> []" "scroll cl n sid = Inr next_page"
  shows "scroll_loop rt an cl pf flds sid n page st
         = scroll_loop rt an cl pf flds sid (Suc n) next_page
             (call_to (Scroll sid) (snd (hits_loop rt an pf flds page st)))"
proof -
  obtain st1 where h: "hits_loop rt an pf flds page st = (None, st1)"
    using hits_loop_None by blast
  show ?thesis by (subst scroll_loop.simps) (simp add: assms h)
qed

lemma bulk_calls_call_to [simp]:
  "bulk_calls (call_to (Scroll sid) st) = bulk_calls st"
  "bulk_calls (call_to (ClearScroll sid) st) = bulk_calls st"
  "bulk_calls (call_to (Search idx flds) st) = bulk_calls st"
  "bulk_calls (call_to (Bulk body) st) = bulk_calls st @ [Bulk body]"
  "bulk_calls (log_to lv m st) = bulk_calls st"
  by (simp_all add: bulk_calls_def)

lemma bulk_calls_hits_loop [simp]:
  "bulk_calls (snd (hits_loop rt an pf flds page st)) = bulk_calls st"
  using hits_loop_result [of rt an pf flds page st] by (simp add: bulk_calls_def)

lemma scroll_loop_calls:
  assumes "scroll_loop rt an cl pf flds sid n page st = Some y"
  shows "fst y = None \<and> bulk_calls (snd y) = bulk_calls st"
proof (rule scroll_loop.raw_induct
    [where P = "\<lambda>rt an cl pf flds sid n page st y.
                  fst y = None \<and> bulk_calls (snd y) = bulk_calls st", OF _ assms],
    goal_cases)
  case (1 loop rt an cl pf flds sid n page st y)
  show ?case
  proof (cases "page = []")
    case True
    with 1(2) show ?thesis by auto
  next
    case False
    obtain st1 where h: "hits_loop rt an pf flds page st = (None, st1)"
      using hits_loop_None by blast
    have b: "bulk_calls st1 = bulk_calls st"
      using bulk_calls_hits_loop [of rt an pf flds page st] by (simp add: h)
    show ?thesis
    proof (cases "scroll cl n sid")
      case (Inl e)
      with False 1(2) h b show ?thesis by auto
    next
      case (Inr next_page)
      with False 1(2) h
      have "loop rt an cl pf flds sid (Suc n) next_page (call_to (Scroll sid) st1) = Some y"
        by simp
      from 1(1) [OF this] b show ?thesis by simp
    qed
  qed
qed

lemma scroll_loop_inv:
  assumes "scroll_loop rt an cl pf flds sid n page st = Some y"
  shows "(\<forall>s w c. w \<in> set (fst (extract_words_from_sentence rt an s pf))
            \<longrightarrow> extract_choseong rt w = Inr c
            \<longrightarrow> P \<lparr>word = w, choseong = c, source_sentence = None\<rparr>)
         \<longrightarrow> (\<forall>r \<in> set (words st). P r)
         \<longrightarrow> (\<forall>r \<in> set (words (snd y)). P r)"
proof (rule scroll_loop.raw_induct
    [where P = "\<lambda>rt an cl pf flds sid n page st y.
       (\<forall>s w c. w \<in> set (fst (extract_words_from_sentence rt an s pf))
            \<longrightarrow> extract_choseong rt w = Inr c
            \<longrightarrow> P \<lparr>word = w, choseong = c, source_sentence = None\<rparr>)
         \<longrightarrow> (\<forall>r \<in> set (words st). P r)
         \<longrightarrow> (\<forall>r \<in> set (words (snd y)). P r)", OF _ assms],
    goal_cases)
  case (1 loop rt an cl pf flds sid n page st y)
  show ?case
  proof (intro impI)
    assume g: "\<forall>s w c. w \<in> set (fst (extract_words_from_sentence rt an s pf))
            \<longrightarrow> extract_choseong rt w = Inr c
            \<longrightarrow> P \<lparr>word = w, choseong = c, source_sentence = None\<rparr>"
      and i: "\<forall>r \<in> set (words st). P r"
    have p: "\<forall>r \<in> set (words (snd (hits_loop rt an pf flds page st))). P r"
      using i g by (intro hits_loop_inv) blast+
    show "\<forall>r \<in> set (words (snd y)). P r"
    proof (cases "page = []")
      case True
      with 1(2) i show ?thesis by auto
    next
      case False
      obtain st1 where h: "hits_loop rt an pf flds page st = (None, st1)"
        using hits_loop_None by blast
      have q: "\<forall>r \<in> set (words st1). P r" using p by (simp add: h)
      show ?thesis
      proof (cases "scroll cl n sid")
        case (Inl e)
        with False 1(2) h q show ?thesis by auto
      next
        case (Inr next_page)
        with False 1(2) h
        have "loop rt an cl pf flds sid (Suc n) next_page (call_to (Scroll sid) st1) = Some y"
          by simp
        from 1(1) [OF this] g q show ?thesis by simp
      qed
    qed
  qed
qed

section \<open>The extraction as a whole\<close>

lemma entry_state_fields [simp]:
  "words (entry_state idx flds st) = []"
  "processed_sentences (entry_state idx flds st) = 0"
  "logs (entry_state idx flds st) = logs st"
  "calls (entry_state idx flds st) = calls st @ [Search idx flds]"
  "bulk_calls (entry_state idx flds st) = bulk_calls st"
  by (simp_all add: entry_state_def bulk_calls_def)

lemma extract_search_fails:
  assumes "search cl idx flds = Inl e"
  shows "extract_words_from_index rt an cl idx flds pf st
         = Some (Some e, log_to ERROR (ExtractionFailed e) (entry_state idx flds st))"
  using assms by (simp add: extract_words_from_index_def entry_state_def)

lemma extract_after_loop:
  assumes "search cl idx flds = Inr resp"
  shows "extract_words_from_index rt an cl idx flds pf st
         = (case scroll_loop rt an cl pf flds (scroll_id resp) 0 (hits resp)
                   (entry_state idx flds st) of
              None \<Rightarrow> None
            | Some y \<Rightarrow>
                Some (None,
                  log_to INFO
                    (ExtractionSummary (processed_sentences (snd y)) (length (words (snd y))))
                    (call_to (ClearScroll (scroll_id resp)) (snd y))))"
proof (cases "scroll_loop rt an cl pf flds (scroll_id resp) 0 (hits resp)
                (entry_state idx flds st)")
  case None
  with assms show ?thesis
    by (simp add: extract_words_from_index_def entry_state_def)
next
  case (Some y)
  from scroll_loop_calls [OF Some] obtain st1 where y: "y = (None, st1)"
    by (cases y) auto
  with assms Some show ?thesis
    by (simp add: extract_words_from_index_def entry_state_def)
qed

lemma extract_bulk_calls:
  assumes "extract_words_from_index rt an cl idx flds pf st = Some (x, st')"
  shows "bulk_calls st' = bulk_calls st"
proof (cases "search cl idx flds")
  case (Inl e)
  with assms show ?thesis by (auto simp: extract_search_fails)
next
  case (Inr resp)
  with assms obtain y where y: "scroll_loop rt an cl pf flds (scroll_id resp) 0 (hits resp)
      (entry_state idx flds st) = Some y"
    and s: "st' = log_to INFO
                    (ExtractionSummary (processed_sentences (snd y)) (length (words (snd y))))
                    (call_to (ClearScroll (scroll_id resp)) (snd y))"
    by (auto simp: extract_after_loop split: option.splits)
  from scroll_loop_calls [OF y] s show ?thesis by simp
qed

lemma extract_words_inv:
  assumes "extract_words_from_index rt an cl idx flds pf st = Some (x, st')"
    and "\<And>s w c. w \<in> set (fst (extract_words_from_sentence rt an s pf))
           \<Longrightarrow> extract_choseong rt w = Inr c
           \<Longrightarrow> P \<lparr>word = w, choseong = c, source_sentence = None\<rparr>"
  shows "\<forall>r \<in> set (words st'). P r"
proof (cases "search cl idx flds")
  case (Inl e)
  with assms(1) show ?thesis by (auto simp: extract_search_fails)
next
  case (Inr resp)
  with assms(1) obtain y where y: "scroll_loop rt an cl pf flds (scroll_id resp) 0 (hits resp)
      (entry_state idx flds st) = Some y"
    and s: "st' = log_to INFO
                    (ExtractionSummary (processed_sentences (snd y)) (length (words (snd y))))
                    (call_to (ClearScroll (scroll_id resp)) (snd y))"
    by (auto simp: extract_after_loop split: option.splits)
  from scroll_loop_inv [OF y, of P] assms(2)
  have "\<forall>r \<in> set (words (snd y)). P r" by simp
  with s show ?thesis by simp
qed

lemma paging_reaches:
  assumes "paging_state rt an cl pf flds sid first_page st0 n = Some (page, st)"
  shows "scroll_loop rt an cl pf flds sid 0 first_page st0
         = scroll_loop rt an cl pf flds sid n page st"
  using assms
proof (induction n arbitrary: page st)
  case 0
  then show ?case by simp
next
  case (Suc n)
  from Suc.prems obtain p s where k: "paging_state rt an cl pf flds sid first_page st0 n = Some (p, s)"
    by (auto split: option.splits)
  obtain s1 where h: "hits_loop rt an pf flds p s = (None, s1)"
    using hits_loop_None by blast
  from Suc.prems k h have ne: "p \<noteq> []" and sc: "scroll cl n sid = Inr page"
    and st: "st = call_to (Scroll sid) s1"
    by (auto split: if_splits sum.splits)
  have "scroll_loop rt an cl pf flds sid 0 first_page st0 = scroll_loop rt an cl pf flds sid n p s"
    using k by (rule Suc.IH)
  also have "\<dots> = scroll_loop rt an cl pf flds sid (Suc n) page st"
    using scroll_loop_next [OF ne sc, of rt an pf flds s] by (simp add: h st)
  finally show ?case .
qed

lemma index_words_result:
  assumes "ws \<noteq> []"
  shows "calls (snd (index_words_to_auto_search cl ws target st))
           = calls st @ [Bulk (bulk_data_of target ws)]
         \<and> words (snd (index_words_to_auto_search cl ws target st)) = words st
         \<and> set (logs st) \<subseteq> set (logs (snd (index_words_to_auto_search cl ws target st)))"
proof -
  from assms have "bulk_data_of target ws \<noteq> []" by (cases ws) simp_all
  with assms show ?thesis
    by (auto simp: index_words_to_auto_search_def Let_def split: sum.splits)
qed


section \<open>Example runs\<close>

lemma hello_english: "extract_english_words example_runtime hello = [hello]"
  by (simp add: extract_english_words_def findall_english_def hello_def match_at_def
      word_boundary_def re_word_def char_at_def example_runtime_def ascii_letter_def
      is_valid_english_word_def py_isalpha_def py_lower_def lower_char_def korean_syllable_def)

lemma hello_not_blank: "hello \<noteq> [] \<and> py_strip example_runtime hello \<noteq> []"
proof -
  have "\<not> blank example_runtime hello"
    by (simp add: blank_def hello_def example_runtime_def)
  then show ?thesis by (auto simp: strip_empty_iff blank_def)
qed

lemma hello_words:
  "extract_words_from_sentence example_runtime whole_sentence_tagger hello None = ([hello], [])"
proof -
  have k: "extract_korean_words whole_sentence_tagger hello None = ([], [])"
    by (simp add: extract_korean_words_def whole_sentence_tagger_def passes_filter_def
        is_valid_korean_word_def hello_def korean_syllable_def)
  from hello_not_blank show ?thesis
    by (simp add: extract_words_from_sentence_def k hello_english) (simp add: example_runtime_def)
qed


lemma hello_choseong: "extract_choseong example_runtime hello = Inr hello"
  by (simp add: extract_choseong_cases py_isalpha_def py_isascii_def py_lower_def lower_char_def
      hello_def example_runtime_def ascii_letter_def)

lemma titled_hit_tagged:
  "fields_loop example_runtime whole_sentence_tagger None (titled hello) [''title''] st
   = (None, st\<lparr>words := words st @ [hello_record],
               processed_sentences := processed_sentences st + 1\<rparr>)"
  by (simp add: titled_def hello_words hello_choseong hello_record_def) (simp add: hello_def)


lemma two_hits_tagged:
  "hits_loop example_runtime whole_sentence_tagger None [''title''] [titled hello, titled hello] st
   = (None, st\<lparr>words := words st @ [hello_record, hello_record],
               processed_sentences := processed_sentences st + 2\<rparr>)"
  by (simp add: titled_hit_tagged del: fields_loop.simps)

lemma two_documents_extract:
  "extract_words_from_index example_runtime whole_sentence_tagger two_documents
     ''project'' [''title''] None st
   = Some (None, st\<lparr>words := [hello_record, hello_record], processed_sentences := 2,
                    logs := logs st @ [(INFO, ExtractionSummary 2 2)],
                    calls := calls st @ [Search ''project'' [''title''], Scroll ''c1'',
                                         ClearScroll ''c1'']\<rparr>)"
proof -
  have s: "search two_documents ''project'' [''title'']
           = Inr \<lparr>scroll_id = ''c1'', hits = [titled hello, titled hello]\<rparr>"
    by (simp add: two_documents_def)
  have n: "scroll two_documents 0 ''c1'' = Inr []" by (simp add: two_documents_def)
  have "scroll_loop example_runtime whole_sentence_tagger two_documents None [''title''] ''c1'' 0
          [titled hello, titled hello] (entry_state ''project'' [''title''] st)
        = Some (None, call_to (Scroll ''c1'')
            (snd (hits_loop example_runtime whole_sentence_tagger None [''title'']
                    [titled hello, titled hello] (entry_state ''project'' [''title''] st))))"
    using scroll_loop_next [OF _ n] by (simp add: scroll_loop_done)
  then show ?thesis
    by (simp add: extract_after_loop [OF s] two_hits_tagged entry_state_def call_to_def
        log_to_def del: hits_loop.simps fields_loop.simps)
qed


section \<open>Aggregation\<close>




section \<open>The invariant of emitted words\<close>

lemma blank_adds_no_record:
  assumes "blank rt s"
  shows "words_loop rt (fst (extract_words_from_sentence rt an s pf)) st0 = (None, st0)"
  using assms by (simp add: blank_sentence_no_words)

text \<open>
  Claim C4. Every word of every record that the extraction step puts on its list has
  at least two characters and either holds a Hangul syllable (\<open>U+AC00\<close> to \<open>U+D7A3\<close>)
  or is made of letters only and at most 50 characters long; the same holds for the
  words of any one sentence, and a blank sentence (empty, or whitespace only) adds no
  record.
\<close>

theorem emitted_words_satisfy_invariant:
  assumes "set_iter_ok rt" "alpha_ascii_ok rt"
    and "extract_words_from_index rt an cl idx flds pf st = Some (x, st')"
  shows "(\<forall>r \<in> set (words st'). emitted_word_ok rt (word r))
         \<and> (\<forall>w \<in> set (fst (extract_words_from_sentence rt an s pf)). emitted_word_ok rt w)
         \<and> (blank rt s \<longrightarrow>
              fst (extract_words_from_sentence rt an s pf) = []
              \<and> words_loop rt (fst (extract_words_from_sentence rt an s pf)) st0 = (None, st0))"
proof -
  have a: "\<forall>r \<in> set (words st'). emitted_word_ok rt (word r)"
    using assms(3)
  proof (rule extract_words_inv)
    fix s w c
    assume "w \<in> set (fst (extract_words_from_sentence rt an s pf))"
    with assms(1,2) have "emitted_word_ok rt w" by (rule sentence_word_ok)
    then show "emitted_word_ok rt (word \<lparr>word = w, choseong = c, source_sentence = None\<rparr>)"
      by simp
  qed
  have b: "\<forall>w \<in> set (fst (extract_words_from_sentence rt an s pf)). emitted_word_ok rt w"
    using assms(1,2) sentence_word_ok by blast
  from a b blank_adds_no_record blank_sentence_no_words show ?thesis by simp
qed

theorem emitted_words_satisfy_invariant_witness:
  "emitted_word_ok example_runtime (word hello_record)
   \<and> 2 \<le> length hello \<and> list_all ascii_letter hello
   \<and> emitted_word_ok example_runtime [97, 98]
   \<and> blank example_runtime [32, 9]
   \<and> words_loop example_runtime
        (fst (extract_words_from_sentence example_runtime whole_sentence_tagger [32, 9] None))
        initial_state = (None, initial_state)"
proof -
  have e: "extract_words_from_index example_runtime whole_sentence_tagger two_documents
     ''project'' [''title''] None initial_state
   = Some (None, initial_state\<lparr>words := [hello_record, hello_record], processed_sentences := 2,
                    logs := logs initial_state @ [(INFO, ExtractionSummary 2 2)],
                    calls := calls initial_state @ [Search ''project'' [''title''], Scroll ''c1'',
                                         ClearScroll ''c1'']\<rparr>)"
    by (rule two_documents_extract)
  note t = emitted_words_satisfy_invariant [OF example_runtime_set_iter example_runtime_ascii e]
  have b: "blank example_runtime [32, 9]"
    by (simp add: blank_def example_runtime_def)
  from t [of ab_ab] have 1: "emitted_word_ok example_runtime (word hello_record)"
    and 2: "emitted_word_ok example_runtime [97, 98]"
    by (simp_all add: ab_ab_words)
  from t [of "[32, 9]" initial_state] b
  have 3: "words_loop example_runtime
        (fst (extract_words_from_sentence example_runtime whole_sentence_tagger [32, 9] None))
        initial_state = (None, initial_state)"
    by simp
  have 4: "2 \<le> length hello \<and> list_all ascii_letter hello"
    by (simp add: hello_def ascii_letter_def)
  from 1 2 3 4 b show ?thesis by simp
qed

section \<open>The write step\<close>

lemma index_nothing:
  "index_words_to_auto_search cl [] target st = (None, log_to WARNING NoWordsToIndex st)"
  by (simp add: index_words_to_auto_search_def)

lemma process_no_words:
  assumes "extract_words_from_index rt an cl idx flds pf (log_to INFO (Extracting idx) st)
           = Some (None, st1)"
    and "words st1 = []"
  shows "process_words_from_source_index rt an cl idx flds target pf st
         = Some (None, log_to WARNING NoWordsToProcess st1)"
  using assms by (simp add: process_words_from_source_index_def)

text \<open>
  Claim C8. When the list of words a run has gathered is empty, the write step is
  skipped: the run ends without an exception, logs the warning that there is nothing
  to process, and has made no bulk request. That is the case for an empty source. The
  write step itself, given an empty list, only logs a warning.
\<close>

theorem empty_word_list_skips_write:
  "(extract_words_from_index rt an cl idx flds pf (log_to INFO (Extracting idx) st)
      = Some (None, st1) \<and> words st1 = []
    \<longrightarrow> process_words_from_source_index rt an cl idx flds target pf st
          = Some (None, log_to WARNING NoWordsToProcess st1)
        \<and> bulk_calls (log_to WARNING NoWordsToProcess st1) = bulk_calls st)
   \<and> (search cl idx flds = Inr resp \<and> hits resp = []
      \<longrightarrow> (\<exists>st'. process_words_from_source_index rt an cl idx flds target pf st
                   = Some (None, st')
                 \<and> words st' = [] \<and> bulk_calls st' = bulk_calls st
                 \<and> (WARNING, NoWordsToProcess) \<in> set (logs st')))
   \<and> index_words_to_auto_search cl [] target st = (None, log_to WARNING NoWordsToIndex st)"
proof -
  have a: "process_words_from_source_index rt an cl idx flds target pf st
          = Some (None, log_to WARNING NoWordsToProcess s1)
        \<and> bulk_calls (log_to WARNING NoWordsToProcess s1) = bulk_calls st"
    if e: "extract_words_from_index rt an cl idx flds pf (log_to INFO (Extracting idx) st)
      = Some (None, s1)" and w: "words s1 = []" for s1
  proof -
    from extract_bulk_calls [OF e] have "bulk_calls s1 = bulk_calls st" by simp
    with process_no_words [OF e w] show ?thesis by simp
  qed
  have b: "\<exists>st'. process_words_from_source_index rt an cl idx flds target pf st
                   = Some (None, st')
                 \<and> words st' = [] \<and> bulk_calls st' = bulk_calls st
                 \<and> (WARNING, NoWordsToProcess) \<in> set (logs st')"
    if s: "search cl idx flds = Inr resp" and h: "hits resp = []"
  proof -
    let ?st0 = "entry_state idx flds (log_to INFO (Extracting idx) st)"
    let ?st1 = "log_to INFO (ExtractionSummary 0 0) (call_to (ClearScroll (scroll_id resp)) ?st0)"
    have e: "extract_words_from_index rt an cl idx flds pf (log_to INFO (Extracting idx) st)
             = Some (None, ?st1)"
      by (simp add: extract_after_loop [OF s] h scroll_loop_done)
    have w: "words ?st1 = []" by simp
    from a [OF e w] show ?thesis by simp
  qed
  from a b index_nothing show ?thesis by blast
qed

theorem empty_word_list_skips_write_witness:
  "process_words_from_source_index example_runtime whole_sentence_tagger empty_source
     ''project'' [''title''] ''auto_search'' None initial_state
   = Some (None,
       \<lparr>words = [], processed_sentences = 0,
        logs = [(INFO, Extracting ''project''), (INFO, ExtractionSummary 0 0),
                (WARNING, NoWordsToProcess)],
        calls = [Search ''project'' [''title''], ClearScroll ''c1'']\<rparr>)
   \<and> bulk_calls \<lparr>words = [], processed_sentences = 0,
        logs = [(INFO, Extracting ''project''), (INFO, ExtractionSummary 0 0),
                (WARNING, NoWordsToProcess)],
        calls = [Search ''project'' [''title''], ClearScroll ''c1'']\<rparr> = []"
proof -
  have s: "search empty_source ''project'' [''title''] = Inr \<lparr>scroll_id = ''c1'', hits = []\<rparr>"
    by (simp add: empty_source_def)
  let ?st1 = "\<lparr>words = [], processed_sentences = 0,
        logs = [(INFO, Extracting ''project''), (INFO, ExtractionSummary 0 0)],
        calls = [Search ''project'' [''title''], ClearScroll ''c1'']\<rparr>"
  have e: "extract_words_from_index example_runtime whole_sentence_tagger empty_source
             ''project'' [''title''] None (log_to INFO (Extracting ''project'') initial_state)
           = Some (None, ?st1)"
    by (simp add: extract_after_loop [OF s] scroll_loop_done entry_state_def log_to_def
        call_to_def initial_state_def)
  from empty_word_list_skips_write [of example_runtime whole_sentence_tagger empty_source
      "''project''" "[''title'']" None initial_state ?st1 "''auto_search''"] e
  show ?thesis by (simp add: log_to_def bulk_calls_def)
qed

section \<open>Failures of the collaborators\<close>

lemma process_after_extract:
  assumes "extract_words_from_index rt an cl idx flds pf (log_to INFO (Extracting idx) st)
           = Some (None, st1)"
    and "words st1 \<noteq> []"
  shows "\<exists>x st'. process_words_from_source_index rt an cl idx flds target pf st = Some (x, st')
           \<and> words st' = words st1
           \<and> set (logs st1) \<subseteq> set (logs st')
           \<and> calls st' = calls st1 @ [Bulk (bulk_data_of target (words st1))]"
proof -
  let ?r = "index_words_to_auto_search cl (words st1) target (log_to INFO (Indexing target) st1)"
  note i = index_words_result [OF assms(2), of cl target "log_to INFO (Indexing target) st1"]
  obtain x st2 where r: "?r = (x, st2)" by (cases ?r)
  with i have c: "calls st2 = calls st1 @ [Bulk (bulk_data_of target (words st1))]"
    and w: "words st2 = words st1" and l: "set (logs st1) \<subseteq> set (logs st2)"
    by auto
  show ?thesis
  proof (cases x)
    case None
    with assms r c w l show ?thesis
      by (auto simp: process_words_from_source_index_def)
  next
    case (Some e)
    with assms r c w l show ?thesis
      by (auto simp: process_words_from_source_index_def)
  qed
qed

text \<open>
  Claim C6. When a call of \<open>client.scroll\<close> for a further page raises, at whatever
  iteration of the paging loop, the extraction still returns normally: the failure is
  logged as a warning, the only call made after it is the release of the cursor (the
  page is not asked for again), and the list of words is the one gathered up to and
  including the page in hand. The run then goes on to the write step with that list.
\<close>

theorem scroll_failure_ends_paging:
  assumes "search cl idx flds = Inr resp"
    and "paging_state rt an cl pf flds (scroll_id resp) (hits resp)
           (entry_state idx flds (log_to INFO (Extracting idx) st)) n = Some (page, st1)"
    and "page \<noteq> []"
    and "scroll cl n (scroll_id resp) = Inl e"
  shows "extract_words_from_index rt an cl idx flds pf (log_to INFO (Extracting idx) st)
         = Some (None,
             log_to INFO
               (ExtractionSummary (processed_sentences (snd (hits_loop rt an pf flds page st1)))
                  (length (words (snd (hits_loop rt an pf flds page st1)))))
               (call_to (ClearScroll (scroll_id resp))
                  (log_to WARNING (ScrollFailed e)
                     (call_to (Scroll (scroll_id resp))
                        (snd (hits_loop rt an pf flds page st1))))))
         \<and> (\<exists>x st'. process_words_from_source_index rt an cl idx flds target pf st
                       = Some (x, st')
               \<and> words st' = words (snd (hits_loop rt an pf flds page st1))
               \<and> (WARNING, ScrollFailed e) \<in> set (logs st')
               \<and> calls st' = calls st1 @ [Scroll (scroll_id resp), ClearScroll (scroll_id resp)]
                    @ (if words (snd (hits_loop rt an pf flds page st1)) = [] then []
                       else [Bulk (bulk_data_of target
                                     (words (snd (hits_loop rt an pf flds page st1))))]))"
proof -
  let ?sid = "scroll_id resp"
  let ?st2 = "snd (hits_loop rt an pf flds page st1)"
  let ?st3 = "log_to WARNING (ScrollFailed e) (call_to (Scroll ?sid) ?st2)"
  let ?st4 = "log_to INFO (ExtractionSummary (processed_sentences ?st2) (length (words ?st2)))
                (call_to (ClearScroll ?sid) ?st3)"
  have c2: "calls ?st2 = calls st1"
    using hits_loop_result [of rt an pf flds page st1] by simp
  have "scroll_loop rt an cl pf flds ?sid 0 (hits resp)
          (entry_state idx flds (log_to INFO (Extracting idx) st))
        = scroll_loop rt an cl pf flds ?sid n page st1"
    using assms(2) by (rule paging_reaches)
  also have "\<dots> = Some (None, ?st3)"
    using assms(3,4) by (rule scroll_loop_break)
  finally have e: "extract_words_from_index rt an cl idx flds pf
                     (log_to INFO (Extracting idx) st) = Some (None, ?st4)"
    by (simp add: extract_after_loop [OF assms(1)])
  have "\<exists>x st'. process_words_from_source_index rt an cl idx flds target pf st = Some (x, st')
               \<and> words st' = words ?st2
               \<and> (WARNING, ScrollFailed e) \<in> set (logs st')
               \<and> calls st' = calls st1 @ [Scroll ?sid, ClearScroll ?sid]
                    @ (if words ?st2 = [] then []
                       else [Bulk (bulk_data_of target (words ?st2))])"
  proof (cases "words ?st2 = []")
    case True
    then have "words ?st4 = []" by simp
    from process_no_words [OF e this, of target] True c2 show ?thesis by simp
  next
    case False
    then have "words ?st4 \<noteq> []" by simp
    from process_after_extract [OF e this, of target] False c2 show ?thesis by auto
  qed
  with e show ?thesis by simp
qed

lemma one_hit_tagged:
  "hits_loop example_runtime whole_sentence_tagger None [''title''] [titled hello] st
   = (None, st\<lparr>words := words st @ [hello_record],
               processed_sentences := processed_sentences st + 1\<rparr>)"
  by (simp add: titled_hit_tagged del: fields_loop.simps)


theorem scroll_failure_ends_paging_witness:
  "extract_words_from_index example_runtime whole_sentence_tagger second_page_lost
     ''project'' [''title''] None (log_to INFO (Extracting ''project'') initial_state)
   = Some (None,
       \<lparr>words = [hello_record], processed_sentences = 1,
        logs = [(INFO, Extracting ''project''), (WARNING, ScrollFailed (External ''timeout'')),
                (INFO, ExtractionSummary 1 1)],
        calls = [Search ''project'' [''title''], Scroll ''c1'', ClearScroll ''c1'']\<rparr>)"
proof -
  let ?resp = "\<lparr>scroll_id = ''c1'', hits = [titled hello]\<rparr>"
  have s: "search second_page_lost ''project'' [''title''] = Inr ?resp"
    by (simp add: second_page_lost_def)
  have p: "paging_state example_runtime whole_sentence_tagger second_page_lost None [''title'']
             (scroll_id ?resp) (hits ?resp)
             (entry_state ''project'' [''title''] (log_to INFO (Extracting ''project'') initial_state))
             0
           = Some ([titled hello],
               entry_state ''project'' [''title''] (log_to INFO (Extracting ''project'') initial_state))"
    by simp
  have n: "[titled hello] \<noteq> []" by simp
  have f: "scroll second_page_lost 0 (scroll_id ?resp) = Inl (External ''timeout'')"
    by (simp add: second_page_lost_def)
  from scroll_failure_ends_paging [OF s p n f, of "''auto_search''"]
  show ?thesis
    by (simp add: one_hit_tagged entry_state_def log_to_def call_to_def initial_state_def
        del: hits_loop.simps fields_loop.simps)
qed




end
